theory Spec2Isabelle
  imports Main "HOL-Library.Word"
begin

section \<open>GNetworkService: data model\<close>

text \<open>
  A shallow embedding of \<^verbatim>\<open>gio/gnetworkservice.c\<close>. Objects that the C code
  reaches through pointers (the service, the default resolver, the enumerator) are records
  that the functions take and return; a \<^verbatim>\<open>NULL\<close> pointer is \<open>None\<close>, and a
  \<^verbatim>\<open>GList *\<close> is a list whose \<^verbatim>\<open>NULL\<close> is \<open>[]\<close>.
\<close>

datatype error_code =
    G_IO_ERROR_INVALID_ARGUMENT
  | G_IO_ERROR_CANCELLED
  | G_IO_ERROR_FAILED
  | G_RESOLVER_ERROR_NOT_FOUND
  | G_RESOLVER_ERROR_TEMPORARY_FAILURE

datatype gerror = GError error_code string

record GSrvTarget =
  hostname :: string
  port :: "16 word"
  priority :: "16 word"
  weight :: "16 word"

text \<open>
  \<^verbatim>\<open>struct _GNetworkServicePrivate\<close>, together with the notifications the object
  has emitted through \<^verbatim>\<open>g_object_notify\<close> (oldest first).
\<close>

record GNetworkService =
  service :: "string option"
  protocol :: "string option"
  domain :: "string option"
  scheme :: "string option"
  targets :: "GSrvTarget list"
  notified :: "string list"

datatype prop_id = PROP_SERVICE | PROP_PROTOCOL | PROP_DOMAIN | PROP_SCHEME

text \<open>The instance as \<^verbatim>\<open>g_object_new\<close> hands it to the property setters: zero-filled.\<close>

definition g_network_service_init :: GNetworkService where
  "g_network_service_init =
     \<lparr>service = None, protocol = None, domain = None, scheme = None, targets = [],
      notified = []\<rparr>"

definition g_network_service_get_scheme :: "GNetworkService \<Rightarrow> string option" where
  "g_network_service_get_scheme srv =
     (case scheme srv of Some s \<Rightarrow> Some s | None \<Rightarrow> service srv)"

definition g_network_service_set_scheme :: "GNetworkService \<Rightarrow> string option \<Rightarrow> GNetworkService" where
  "g_network_service_set_scheme srv s =
     srv\<lparr>scheme := s, notified := notified srv @ [''scheme'']\<rparr>"

fun g_network_service_set_property :: "GNetworkService \<Rightarrow> prop_id \<Rightarrow> string option \<Rightarrow> GNetworkService" where
  "g_network_service_set_property srv PROP_SERVICE v = srv\<lparr>service := v\<rparr>"
| "g_network_service_set_property srv PROP_PROTOCOL v = srv\<lparr>protocol := v\<rparr>"
| "g_network_service_set_property srv PROP_DOMAIN v = srv\<lparr>domain := v\<rparr>"
| "g_network_service_set_property srv PROP_SCHEME v = g_network_service_set_scheme srv v"

text \<open>
  \<^verbatim>\<open>g_network_service_new\<close> returns the pointer that \<^verbatim>\<open>g_object_new\<close> gives,
  after the three construct properties are set in the order they are passed. The result
  type has room for a failure (\<open>Inl\<close>); the function has no branch that produces one.
\<close>

definition g_network_service_new ::
  "string option \<Rightarrow> string option \<Rightarrow> string option \<Rightarrow> gerror + GNetworkService" where
  "g_network_service_new service_arg protocol_arg domain_arg =
     Inr (g_network_service_set_property
            (g_network_service_set_property
               (g_network_service_set_property g_network_service_init PROP_SERVICE service_arg)
               PROP_PROTOCOL protocol_arg)
            PROP_DOMAIN domain_arg)"

section \<open>The address enumerator\<close>

type_synonym GCancellable = nat

text \<open>
  The default resolver, shared by every enumerator. \<open>lookups\<close> counts the service
  lookups issued so far (blocking or asynchronous); it is not a field of the C object.
\<close>

record GResolver =
  lookups :: nat

text \<open>
  The functions of GLib that the enumerator calls and that live in other files. \<open>'n\<close> is
  the type of the per-target connectable (a \<^verbatim>\<open>GNetworkAddress\<close>), \<open>'c\<close> the state
  of a child enumerator, \<open>'a\<close> a socket address. A function that returns \<^verbatim>\<open>NULL\<close> and
  sets a \<^verbatim>\<open>GError\<close> returns \<open>Inl\<close>. The resolver's answer may depend on how many
  lookups came before; the asynchronous variants of the resolver and of the child enumerator
  give the answers of the blocking ones. \<open>g_uri_from_authority\<close> is the C function
  \<^verbatim>\<open>_g_uri_from_authority\<close>, called with no user info.
\<close>

record ('n, 'c, 'a) glib =
  g_resolver_lookup_service ::
    "nat \<Rightarrow> string option \<Rightarrow> string option \<Rightarrow> string option \<Rightarrow> GCancellable option
       \<Rightarrow> gerror + GSrvTarget list"
  g_hostname_to_ascii :: "string \<Rightarrow> string option"
  g_uri_from_authority :: "string option \<Rightarrow> string \<Rightarrow> 16 word \<Rightarrow> string"
  g_network_address_parse_uri :: "string \<Rightarrow> 16 word \<Rightarrow> gerror + 'n"
  g_network_address_new :: "string \<Rightarrow> 16 word \<Rightarrow> 'n"
  g_socket_connectable_enumerate :: "'n \<Rightarrow> 'c"
  g_socket_connectable_proxy_enumerate :: "'n \<Rightarrow> 'c"
  g_socket_address_enumerator_next ::
    "'c \<Rightarrow> GCancellable option \<Rightarrow> (gerror + 'a option) \<times> 'c"

record 'a GSimpleAsyncResult =
  simple_error :: "gerror option"
  op_res :: "'a option"

text \<open>
  \<^verbatim>\<open>GNetworkServiceAddressEnumerator\<close>. The field \<^verbatim>\<open>t\<close> of the C struct, a
  pointer into the service's target list, is \<open>t_cur\<close>: the targets from that position on.
  The pointers \<^verbatim>\<open>srv\<close> and \<^verbatim>\<open>resolver\<close> are the two shared objects of \<open>heap\<close>.
\<close>

record ('c, 'a) GNetworkServiceAddressEnumerator =
  addr_enum :: "'c option"
  t_cur :: "GSrvTarget list"
  use_proxy :: bool
  error :: "gerror option"
  cancellable :: "GCancellable option"
  result :: "'a GSimpleAsyncResult option"

record heap =
  srv :: GNetworkService
  resolver :: GResolver

text \<open>
  The two constructors of enumerators. The new enumerator's \<^verbatim>\<open>srv\<close> is the
  connectable and its resolver the default one: the two objects of the heap.
\<close>

definition g_network_service_connectable_enumerate ::
  "GNetworkService \<Rightarrow> ('c, 'a) GNetworkServiceAddressEnumerator" where
  "g_network_service_connectable_enumerate connectable =
     \<lparr>addr_enum = None, t_cur = [], use_proxy = False, error = None, cancellable = None,
      result = None\<rparr>"

definition g_network_service_connectable_proxy_enumerate ::
  "GNetworkService \<Rightarrow> ('c, 'a) GNetworkServiceAddressEnumerator" where
  "g_network_service_connectable_proxy_enumerate connectable =
     (g_network_service_connectable_enumerate connectable)\<lparr>use_proxy := True\<rparr>"

text \<open>\<^verbatim>\<open>if (srv_enum->error == NULL) srv_enum->error = error;\<close>\<close>

definition set_error_if_unset ::
  "gerror \<Rightarrow> ('c, 'a) GNetworkServiceAddressEnumerator \<Rightarrow> ('c, 'a) GNetworkServiceAddressEnumerator" where
  "set_error_if_unset err e = (if error e = None then e\<lparr>error := Some err\<rparr> else e)"

definition invalid_hostname_error :: "string \<Rightarrow> gerror" where
  "invalid_hostname_error h =
     GError G_IO_ERROR_INVALID_ARGUMENT
       (''Received invalid hostname '' @ [CHR 0x27] @ h @ [CHR 0x27] @ '' from GSrvTarget'')"

subsection \<open>Blocking iteration\<close>

text \<open>
  The second block of the loop body of \<^verbatim>\<open>g_network_service_address_enumerator_next\<close>:
  with a child enumerator active, pull one address from it; on an error keep the first
  error and drop the child. A child that returns \<^verbatim>\<open>NULL\<close> without an error stays.
\<close>

definition next_pull_address ::
  "('n, 'c, 'a) glib \<Rightarrow> GCancellable option \<Rightarrow> 'a option
     \<Rightarrow> ('c, 'a) GNetworkServiceAddressEnumerator
     \<Rightarrow> 'a option \<times> ('c, 'a) GNetworkServiceAddressEnumerator" where
  "next_pull_address env canc ret e =
     (case addr_enum e of
        None \<Rightarrow> (ret, e)
      | Some child \<Rightarrow>
          (case g_socket_address_enumerator_next env child canc of
             (Inl err, child') \<Rightarrow> (None, (set_error_if_unset err e)\<lparr>addr_enum := None\<rparr>)
           | (Inr a, child') \<Rightarrow> (a, e\<lparr>addr_enum := Some child'\<rparr>)))"

text \<open>
  One pass through the body of the \<^verbatim>\<open>do ... while\<close>. The two \<^verbatim>\<open>continue\<close>
  statements leave the body before the pull.
\<close>

definition next_iteration ::
  "('n, 'c, 'a) glib \<Rightarrow> GNetworkService \<Rightarrow> GCancellable option \<Rightarrow> 'a option
     \<Rightarrow> ('c, 'a) GNetworkServiceAddressEnumerator
     \<Rightarrow> 'a option \<times> ('c, 'a) GNetworkServiceAddressEnumerator" where
  "next_iteration env sv canc ret e =
     (case (addr_enum e, t_cur e) of
        (None, target # rest) \<Rightarrow>
          (let e1 = e\<lparr>t_cur := rest\<rparr> in
           case g_hostname_to_ascii env (hostname target) of
             None \<Rightarrow> (ret, set_error_if_unset (invalid_hostname_error (hostname target)) e1)
           | Some h \<Rightarrow>
               (case g_network_address_parse_uri env
                       (g_uri_from_authority env (g_network_service_get_scheme sv) h (port target))
                       (port target) of
                  Inl err \<Rightarrow> (ret, set_error_if_unset err e1)
                | Inr addr \<Rightarrow>
                    next_pull_address env canc ret
                      (e1\<lparr>addr_enum :=
                            Some (if use_proxy e1 then g_socket_connectable_proxy_enumerate env addr
                                  else g_socket_connectable_enumerate env addr)\<rparr>)))
      | _ \<Rightarrow> next_pull_address env canc ret e)"

definition walk_measure :: "('c, 'a) GNetworkServiceAddressEnumerator \<Rightarrow> nat" where
  "walk_measure e = 2 * length (t_cur e) + (if addr_enum e = None then 0 else 1)"

function next_do_while ::
  "('n, 'c, 'a) glib \<Rightarrow> GNetworkService \<Rightarrow> GCancellable option \<Rightarrow> 'a option
     \<Rightarrow> ('c, 'a) GNetworkServiceAddressEnumerator
     \<Rightarrow> 'a option \<times> ('c, 'a) GNetworkServiceAddressEnumerator" where
  "next_do_while env sv canc ret e =
     (case next_iteration env sv canc ret e of
        (ret1, e1) \<Rightarrow>
          if addr_enum e1 = None \<and> t_cur e1 \<noteq> [] then next_do_while env sv canc ret1 e1
          else (ret1, e1))"
  by pat_completeness auto
termination
  apply (relation "measure (\<lambda>(env, sv, canc, ret, e). walk_measure e)")
   apply simp
  subgoal for env sv canc ret e ret1 e1
    by (drule sym)
       (auto simp: next_iteration_def next_pull_address_def walk_measure_def
                   set_error_if_unset_def Let_def
             split: option.splits sum.splits prod.splits if_splits list.splits)
  done

declare next_do_while.simps [simp del]

text \<open>
  The loop and what follows it: a recorded error is handed to the caller, and the slot
  emptied, when the loop leaves no address.
\<close>

definition next_walk ::
  "('n, 'c, 'a) glib \<Rightarrow> GCancellable option
     \<Rightarrow> heap \<times> ('c, 'a) GNetworkServiceAddressEnumerator
     \<Rightarrow> (gerror + 'a option) \<times> heap \<times> ('c, 'a) GNetworkServiceAddressEnumerator" where
  "next_walk env canc = (\<lambda>(h, e).
     case next_do_while env (srv h) canc None e of
       (ret, e1) \<Rightarrow>
         (case (ret, error e1) of
            (None, Some err) \<Rightarrow> (Inl err, h, e1\<lparr>error := None\<rparr>)
          | _ \<Rightarrow> (Inr ret, h, e1)))"

definition count_lookup :: "heap \<Rightarrow> heap" where
  "count_lookup h = h\<lparr>resolver := (resolver h)\<lparr>lookups := Suc (lookups (resolver h))\<rparr>\<rparr>"

definition store_targets :: "GSrvTarget list \<Rightarrow> heap \<Rightarrow> heap" where
  "store_targets ts h = h\<lparr>srv := (srv h)\<lparr>targets := ts\<rparr>\<rparr>"

definition g_network_service_address_enumerator_next ::
  "('n, 'c, 'a) glib \<Rightarrow> GCancellable option
     \<Rightarrow> heap \<times> ('c, 'a) GNetworkServiceAddressEnumerator
     \<Rightarrow> (gerror + 'a option) \<times> heap \<times> ('c, 'a) GNetworkServiceAddressEnumerator" where
  "g_network_service_address_enumerator_next env canc = (\<lambda>(h, e).
     if targets (srv h) = [] then
       (case g_resolver_lookup_service env (lookups (resolver h))
               (service (srv h)) (protocol (srv h)) (domain (srv h)) canc of
          Inl err \<Rightarrow> (Inl err, count_lookup h, e)
        | Inr ts \<Rightarrow>
            if ts = [] then (Inr None, count_lookup h, e)
            else next_walk env canc (store_targets ts (count_lookup h), e\<lparr>t_cur := ts\<rparr>))
     else next_walk env canc (h, e))"

subsection \<open>Suspending iteration\<close>

text \<open>
  Each C function of the asynchronous path returns to the main loop with one of these
  outcomes: a \<^verbatim>\<open>g_return_if_fail\<close> fired and nothing was scheduled; the resolver's
  asynchronous lookup is outstanding (with the arguments it was given, the first being the
  number of earlier lookups); the child's \<^verbatim>\<open>next_async\<close> is outstanding; or the
  enumerator's own result was completed, which calls the caller's callback.
\<close>

datatype ('c, 'a) async_outcome =
    G_Critical
  | Lookup_Service_Pending nat "string option" "string option" "string option"
      "GCancellable option"
  | Child_Next_Pending 'c "GCancellable option"
  | Complete "'a GSimpleAsyncResult"

definition g_simple_async_result_new :: "'a GSimpleAsyncResult" where
  "g_simple_async_result_new = \<lparr>simple_error = None, op_res = None\<rparr>"

definition next_async_have_targets ::
  "('n, 'c, 'a) glib \<Rightarrow> heap \<times> ('c, 'a) GNetworkServiceAddressEnumerator
     \<Rightarrow> ('c, 'a) async_outcome \<times> heap \<times> ('c, 'a) GNetworkServiceAddressEnumerator" where
  "next_async_have_targets env = (\<lambda>(h, e).
     let e1 =
       (case (addr_enum e, t_cur e) of
          (None, target # rest) \<Rightarrow>
            (let addr = g_network_address_new env (hostname target) (port target) in
             e\<lparr>t_cur := rest,
               addr_enum :=
                 Some (if use_proxy e then g_socket_connectable_proxy_enumerate env addr
                       else g_socket_connectable_enumerate env addr)\<rparr>)
        | _ \<Rightarrow> e)
     in
       case addr_enum e1 of
         Some child \<Rightarrow> (Child_Next_Pending child (cancellable e1), h, e1)
       | None \<Rightarrow>
           (case result e1 of
              None \<Rightarrow> (G_Critical, h, e1\<lparr>error := None\<rparr>)
            | Some simple \<Rightarrow>
                (Complete (case error e1 of
                             Some err \<Rightarrow> simple\<lparr>simple_error := Some err\<rparr>
                           | None \<Rightarrow> simple),
                 h, e1\<lparr>result := None, error := None\<rparr>)))"

text \<open>
  The callback of the resolver's lookup; \<open>answer\<close> is what
  \<^verbatim>\<open>g_resolver_lookup_service_finish\<close> returns.
\<close>

definition next_async_resolved_targets ::
  "('n, 'c, 'a) glib \<Rightarrow> gerror + GSrvTarget list
     \<Rightarrow> heap \<times> ('c, 'a) GNetworkServiceAddressEnumerator
     \<Rightarrow> ('c, 'a) async_outcome \<times> heap \<times> ('c, 'a) GNetworkServiceAddressEnumerator" where
  "next_async_resolved_targets env answer = (\<lambda>(h, e).
     case answer of
       Inl err \<Rightarrow>
         (case result e of
            None \<Rightarrow> (G_Critical, store_targets [] h, e)
          | Some simple \<Rightarrow>
              (Complete (simple\<lparr>simple_error := Some err\<rparr>), store_targets [] h,
               e\<lparr>result := None\<rparr>))
     | Inr ts \<Rightarrow> next_async_have_targets env (store_targets ts h, e\<lparr>t_cur := ts\<rparr>))"

text \<open>
  The callback of the child's \<^verbatim>\<open>next_async\<close>; \<open>pulled\<close> is what
  \<^verbatim>\<open>g_socket_address_enumerator_next_finish\<close> returns, with the child's new state.
\<close>

definition next_async_have_address ::
  "('n, 'c, 'a) glib \<Rightarrow> (gerror + 'a option) \<times> 'c
     \<Rightarrow> heap \<times> ('c, 'a) GNetworkServiceAddressEnumerator
     \<Rightarrow> ('c, 'a) async_outcome \<times> heap \<times> ('c, 'a) GNetworkServiceAddressEnumerator" where
  "next_async_have_address env pulled = (\<lambda>(h, e).
     case pulled of
       (Inl err, child') \<Rightarrow>
         next_async_have_targets env (h, (set_error_if_unset err e)\<lparr>addr_enum := None\<rparr>)
     | (Inr address, child') \<Rightarrow>
         (case result e of
            None \<Rightarrow> (G_Critical, h, e\<lparr>addr_enum := Some child'\<rparr>)
          | Some simple \<Rightarrow>
              (Complete (case address of
                           Some a \<Rightarrow> simple\<lparr>op_res := Some a\<rparr>
                         | None \<Rightarrow> simple),
               h, e\<lparr>result := None, addr_enum := Some child'\<rparr>)))"

definition g_network_service_address_enumerator_next_async ::
  "('n, 'c, 'a) glib \<Rightarrow> GCancellable option
     \<Rightarrow> heap \<times> ('c, 'a) GNetworkServiceAddressEnumerator
     \<Rightarrow> ('c, 'a) async_outcome \<times> heap \<times> ('c, 'a) GNetworkServiceAddressEnumerator" where
  "g_network_service_address_enumerator_next_async env canc = (\<lambda>(h, e).
     if result e \<noteq> None then (G_Critical, h, e)
     else
       let e1 = e\<lparr>result := Some g_simple_async_result_new\<rparr>;
           e2 = (case canc of Some c \<Rightarrow> e1\<lparr>cancellable := Some c\<rparr> | None \<Rightarrow> e1)
       in
         if targets (srv h) = [] then
           (Lookup_Service_Pending (lookups (resolver h))
              (service (srv h)) (protocol (srv h)) (domain (srv h)) canc,
            count_lookup h, e2)
         else next_async_have_targets env (h, e2))"

definition g_network_service_address_enumerator_next_finish ::
  "'a GSimpleAsyncResult \<Rightarrow> gerror + 'a option" where
  "g_network_service_address_enumerator_next_finish simple =
     (case simple_error simple of Some err \<Rightarrow> Inl err | None \<Rightarrow> Inr (op_res simple))"

text \<open>
  The main loop: it lets the outstanding operation finish with the answer the collaborator
  gives and runs the callback, until the enumerator's result is completed; the caller's
  callback then reads the result with \<^verbatim>\<open>next_finish\<close>. Nothing is delivered when
  the call was refused.
\<close>

definition pending_measure ::
  "('n, 'c, 'a) glib \<Rightarrow> ('c, 'a) async_outcome \<Rightarrow> ('c, 'a) GNetworkServiceAddressEnumerator \<Rightarrow> nat" where
  "pending_measure env out e =
     (case out of
        Lookup_Service_Pending n s p d c \<Rightarrow>
          (case g_resolver_lookup_service env n s p d c of
             Inl err \<Rightarrow> 3
           | Inr ts \<Rightarrow> 2 * length ts + 3)
      | Child_Next_Pending child c \<Rightarrow> 2 * length (t_cur e) + 1
      | _ \<Rightarrow> 0)"

function main_loop ::
  "('n, 'c, 'a) glib
     \<Rightarrow> ('c, 'a) async_outcome \<times> heap \<times> ('c, 'a) GNetworkServiceAddressEnumerator
     \<Rightarrow> (gerror + 'a option) option \<times> heap \<times> ('c, 'a) GNetworkServiceAddressEnumerator" where
  "main_loop env (G_Critical, h, e) = (None, h, e)"
| "main_loop env (Lookup_Service_Pending n s p d c, h, e) =
     main_loop env
       (next_async_resolved_targets env (g_resolver_lookup_service env n s p d c) (h, e))"
| "main_loop env (Child_Next_Pending child c, h, e) =
     main_loop env
       (next_async_have_address env (g_socket_address_enumerator_next env child c) (h, e))"
| "main_loop env (Complete simple, h, e) =
     (Some (g_network_service_address_enumerator_next_finish simple), h, e)"
  by pat_completeness auto
termination
  apply (relation "measure (\<lambda>(env, out, h, e). pending_measure env out e)")
    apply simp
   apply (auto simp: pending_measure_def next_async_resolved_targets_def
                     next_async_have_targets_def next_async_have_address_def
                     set_error_if_unset_def Let_def
               split: option.splits sum.splits prod.splits if_splits list.splits
                      async_outcome.splits)
  done

text \<open>One suspending step, from the call of \<^verbatim>\<open>next_async\<close> to the caller's callback.\<close>

definition next_suspending ::
  "('n, 'c, 'a) glib \<Rightarrow> GCancellable option
     \<Rightarrow> heap \<times> ('c, 'a) GNetworkServiceAddressEnumerator
     \<Rightarrow> (gerror + 'a option) option \<times> heap \<times> ('c, 'a) GNetworkServiceAddressEnumerator" where
  "next_suspending env canc he =
     main_loop env (g_network_service_address_enumerator_next_async env canc he)"

section \<open>Several enumerators on one service\<close>

text \<open>
  One service, the default resolver, and the enumerators built from the service so far.
  A step builds an enumerator (direct or proxy) or drives one of them, chosen by its
  position, through one blocking or one suspending step; each step runs to its end before
  the next begins.
\<close>

record ('c, 'a) world =
  shared :: heap
  enumerators :: "('c, 'a) GNetworkServiceAddressEnumerator list"

datatype step =
    Enumerate
  | Proxy_Enumerate
  | Blocking_Next nat "GCancellable option"
  | Suspending_Next nat "GCancellable option"

fun world_step :: "('n, 'c, 'a) glib \<Rightarrow> ('c, 'a) world \<Rightarrow> step \<Rightarrow> ('c, 'a) world" where
  "world_step env w Enumerate =
     w\<lparr>enumerators := enumerators w @ [g_network_service_connectable_enumerate (srv (shared w))]\<rparr>"
| "world_step env w Proxy_Enumerate =
     w\<lparr>enumerators := enumerators w @ [g_network_service_connectable_proxy_enumerate (srv (shared w))]\<rparr>"
| "world_step env w (Blocking_Next i canc) =
     (if i < length (enumerators w) then
        (case g_network_service_address_enumerator_next env canc (shared w, enumerators w ! i) of
           (r, h, e) \<Rightarrow> w\<lparr>shared := h, enumerators := (enumerators w)[i := e]\<rparr>)
      else w)"
| "world_step env w (Suspending_Next i canc) =
     (if i < length (enumerators w) then
        (case next_suspending env canc (shared w, enumerators w ! i) of
           (r, h, e) \<Rightarrow> w\<lparr>shared := h, enumerators := (enumerators w)[i := e]\<rparr>)
      else w)"

definition run :: "('n, 'c, 'a) glib \<Rightarrow> step list \<Rightarrow> ('c, 'a) world \<Rightarrow> ('c, 'a) world" where
  "run env steps w = foldl (world_step env) w steps"

text \<open>A service nobody has enumerated yet: no enumerators, and the resolver as it is.\<close>

definition new_world :: "GNetworkService \<Rightarrow> GResolver \<Rightarrow> ('c, 'a) world" where
  "new_world sv r = \<lparr>shared = \<lparr>srv = sv, resolver = r\<rparr>, enumerators = []\<rparr>"

text \<open>Predicates used by the proofs about the main loop and about runs.\<close>

fun lookup_pending :: "('c, 'a) async_outcome \<Rightarrow> bool" where
  "lookup_pending (Lookup_Service_Pending n s p d c) = True"
| "lookup_pending _ = False"

fun outstanding :: "('c, 'a) async_outcome \<Rightarrow> bool" where
  "outstanding (Lookup_Service_Pending n s p d c) = True"
| "outstanding (Child_Next_Pending child c) = True"
| "outstanding _ = False"

definition untouched :: "('c, 'a) GNetworkServiceAddressEnumerator \<Rightarrow> bool" where
  "untouched e \<longleftrightarrow> addr_enum e = None \<and> error e = None \<and> t_cur e = []"

definition world_inv :: "('c, 'a) world \<Rightarrow> bool" where
  "world_inv w \<longleftrightarrow>
     (\<forall>e \<in> set (enumerators w).
        result e = None \<and> (targets (srv (shared w)) = [] \<longrightarrow> untouched e))"

section \<open>A small GLib to run the enumerator on\<close>

text \<open>
  Concrete collaborators for evaluating the definitions: a connectable is (scheme, host,
  port), an address is (IP text, port), and a child enumerator is the list of the results
  its next pulls give; once the list is used up it returns no address and no error. The
  cancellable \<open>1\<close> is one that has been cancelled; any other has not.
\<close>

type_synonym demo_address = "string \<times> 16 word"
type_synonym demo_connectable = "string option \<times> string \<times> 16 word"
type_synonym demo_child = "(gerror + demo_address option) list"

definition demo_target :: "string \<Rightarrow> GSrvTarget" where
  "demo_target h = \<lparr>hostname = h, port = 389, priority = 0, weight = 5\<rparr>"

definition demo_lookup_service ::
  "nat \<Rightarrow> string option \<Rightarrow> string option \<Rightarrow> string option \<Rightarrow> GCancellable option
     \<Rightarrow> gerror + GSrvTarget list" where
  "demo_lookup_service n s p d canc =
     (if canc = Some 1 then Inl (GError G_IO_ERROR_CANCELLED ''Operation was cancelled'')
      else if d = Some ''example.com''
        then Inr [demo_target ''ldap1.example.com'', demo_target ''ldap2.example.com'']
      else if d = Some ''idn.example''
        then Inr [demo_target ''bad host'', demo_target ''ldap2.example.com'']
      else if d = Some ''flaky.example''
        then Inr [demo_target ''down.example.com'', demo_target ''ldap2.example.com'',
                  demo_target ''ldap1.example.com'']
      else if d = Some ''cancel.example''
        then Inr [demo_target ''slow.example.com'', demo_target ''ldap2.example.com'',
                  demo_target ''ldap1.example.com'']
      else if d = Some ''bad.example'' then Inr [demo_target ''bad host'']
      else if d = Some ''empty.example'' then Inr []
      else Inl (GError G_RESOLVER_ERROR_NOT_FOUND ''No service record''))"

definition demo_hostname_to_ascii :: "string \<Rightarrow> string option" where
  "demo_hostname_to_ascii h = (if h = [] \<or> CHR '' '' \<in> set h then None else Some h)"

definition demo_uri_from_authority :: "string option \<Rightarrow> string \<Rightarrow> 16 word \<Rightarrow> string" where
  "demo_uri_from_authority sch h p = (case sch of Some s \<Rightarrow> s | None \<Rightarrow> []) @ ''://'' @ h"

definition demo_parse_uri :: "string \<Rightarrow> 16 word \<Rightarrow> gerror + demo_connectable" where
  "demo_parse_uri uri p =
     (let s = takeWhile (\<lambda>c. c \<noteq> CHR '':'') uri
      in if s = [] then Inl (GError G_IO_ERROR_INVALID_ARGUMENT ''Invalid URI'')
         else Inr (Some s, drop (length s + 3) uri, p))"

definition demo_enumerate :: "demo_connectable \<Rightarrow> demo_child" where
  "demo_enumerate = (\<lambda>(sch, h, p).
     if h = ''ldap1.example.com'' then [Inr (Some (''192.0.2.1'', p)), Inr (Some (''192.0.2.2'', p))]
     else if h = ''ldap2.example.com'' then [Inr (Some (''192.0.2.9'', p))]
     else if h = ''slow.example.com''
       then [Inl (GError G_IO_ERROR_CANCELLED ''Operation was cancelled'')]
     else [Inl (GError G_RESOLVER_ERROR_NOT_FOUND ''No such host'')])"

definition demo_proxy_enumerate :: "demo_connectable \<Rightarrow> demo_child" where
  "demo_proxy_enumerate = (\<lambda>(sch, h, p).
     [Inr (Some ((case sch of Some s \<Rightarrow> s | None \<Rightarrow> ''none'') @ ''-proxy.example.com'', 3128))])"

definition demo_child_next ::
  "demo_child \<Rightarrow> GCancellable option \<Rightarrow> (gerror + demo_address option) \<times> demo_child" where
  "demo_child_next child canc =
     (if canc = Some 1 then (Inl (GError G_IO_ERROR_CANCELLED ''Operation was cancelled''), child)
      else case child of [] \<Rightarrow> (Inr None, []) | r # rest \<Rightarrow> (r, rest))"

definition demo_glib :: "(demo_connectable, demo_child, demo_address) glib" where
  "demo_glib =
     \<lparr>g_resolver_lookup_service = demo_lookup_service,
      g_hostname_to_ascii = demo_hostname_to_ascii,
      g_uri_from_authority = demo_uri_from_authority,
      g_network_address_parse_uri = demo_parse_uri,
      g_network_address_new = (\<lambda>h p. (None, h, p)),
      g_socket_connectable_enumerate = demo_enumerate,
      g_socket_connectable_proxy_enumerate = demo_proxy_enumerate,
      g_socket_address_enumerator_next = demo_child_next\<rparr>"

definition demo_service :: "string \<Rightarrow> GNetworkService" where
  "demo_service d =
     \<lparr>service = Some ''ldap'', protocol = Some ''tcp'', domain = Some d, scheme = None,
      targets = [], notified = []\<rparr>"

definition demo_heap :: "string \<Rightarrow> heap" where
  "demo_heap d = \<lparr>srv = demo_service d, resolver = \<lparr>lookups = 0\<rparr>\<rparr>"

definition demo_enum :: "(demo_child, demo_address) GNetworkServiceAddressEnumerator" where
  "demo_enum = g_network_service_connectable_enumerate (demo_service ''example.com'')"

definition demo_proxy_enum :: "(demo_child, demo_address) GNetworkServiceAddressEnumerator" where
  "demo_proxy_enum = g_network_service_connectable_proxy_enumerate (demo_service ''example.com'')"

text \<open>Inputs of the evaluations below.\<close>

definition demo_next ::
  "heap \<times> (demo_child, demo_address) GNetworkServiceAddressEnumerator
     \<Rightarrow> heap \<times> (demo_child, demo_address) GNetworkServiceAddressEnumerator" where
  "demo_next he = snd (g_network_service_address_enumerator_next demo_glib None he)"

definition demo_next_suspending ::
  "heap \<times> (demo_child, demo_address) GNetworkServiceAddressEnumerator
     \<Rightarrow> heap \<times> (demo_child, demo_address) GNetworkServiceAddressEnumerator" where
  "demo_next_suspending he = snd (next_suspending demo_glib None he)"

definition first_async ::
  "(demo_child, demo_address) async_outcome \<times> heap
     \<times> (demo_child, demo_address) GNetworkServiceAddressEnumerator" where
  "first_async =
     g_network_service_address_enumerator_next_async demo_glib None
       (demo_heap ''example.com'', demo_enum)"

definition unnamed_service :: GNetworkService where
  "unnamed_service = (demo_service ''example.com'')\<lparr>service := None\<rparr>"

definition two_targets_ahead :: "(demo_child, demo_address) GNetworkServiceAddressEnumerator" where
  "two_targets_ahead =
     demo_enum\<lparr>t_cur := [demo_target ''ldap1.example.com'', demo_target ''ldap2.example.com'']\<rparr>"

definition resolved_world :: "(demo_child, demo_address) world" where
  "resolved_world =
     run demo_glib [Enumerate, Blocking_Next 0 None]
       (new_world (demo_service ''example.com'') \<lparr>lookups = 0\<rparr>)"

definition empty_world :: "(demo_child, demo_address) world" where
  "empty_world =
     run demo_glib [Enumerate, Proxy_Enumerate, Blocking_Next 0 None, Suspending_Next (Suc 0) None]
       (new_world (demo_service ''empty.example'') \<lparr>lookups = 0\<rparr>)"

definition ldaps_heap :: heap where
  "ldaps_heap =
     \<lparr>srv = g_network_service_set_scheme (demo_service ''example.com'') (Some ''ldaps''),
      resolver = \<lparr>lookups = 0\<rparr>\<rparr>"

definition later_steps :: "step list" where
  "later_steps =
     [Enumerate, Blocking_Next (Suc 0) None, Suspending_Next 0 (Some 7), Proxy_Enumerate,
      Suspending_Next (Suc (Suc 0)) None, Blocking_Next 0 None]"

section \<open>Properties\<close>

lemmas demo_defs =
  demo_heap_def demo_service_def demo_enum_def demo_proxy_enum_def
  g_network_service_connectable_enumerate_def g_network_service_connectable_proxy_enumerate_def
  demo_glib_def demo_lookup_service_def demo_target_def demo_hostname_to_ascii_def
  demo_uri_from_authority_def demo_parse_uri_def demo_enumerate_def demo_proxy_enumerate_def
  demo_child_next_def demo_next_def demo_next_suspending_def

lemmas step_defs =
  g_network_service_address_enumerator_next_def next_walk_def next_do_while.simps
  next_iteration_def next_pull_address_def set_error_if_unset_def invalid_hostname_error_def
  count_lookup_def store_targets_def g_network_service_get_scheme_def
  next_suspending_def g_network_service_address_enumerator_next_async_def
  next_async_resolved_targets_def next_async_have_targets_def next_async_have_address_def
  g_network_service_address_enumerator_next_finish_def g_simple_async_result_new_def

subsection \<open>The service object\<close>

text \<open>
  C10. \<^verbatim>\<open>set_scheme\<close> with \<^verbatim>\<open>NULL\<close> clears the override, so that
  \<^verbatim>\<open>get_scheme\<close> gives the service name again; with a string \<open>s\<close> it makes
  \<^verbatim>\<open>get_scheme\<close> give \<open>s\<close>; and every call emits one ``scheme'' notification.
\<close>

theorem C10_set_scheme_then_get_scheme:
  "g_network_service_get_scheme (g_network_service_set_scheme sv None) = service sv
   \<and> g_network_service_get_scheme (g_network_service_set_scheme sv (Some s)) = Some s
   \<and> notified (g_network_service_set_scheme sv v) = notified sv @ [''scheme'']"
  by (simp add: g_network_service_get_scheme_def g_network_service_set_scheme_def)

text \<open>
  C8, as the claim has it, fails: built from three empty strings, the service is
  constructed, with the empty strings stored.
\<close>

theorem C8_empty_strings_accepted:
  "g_network_service_new (Some []) (Some []) (Some []) =
     Inr \<lparr>service = Some [], protocol = Some [], domain = Some [], scheme = None,
          targets = [], notified = []\<rparr>"
  by (simp add: g_network_service_new_def g_network_service_init_def)

text \<open>
  C8, amended. Construction checks nothing and never fails: whatever the service, protocol
  and domain are (empty, or even \<^verbatim>\<open>NULL\<close>), the new service stores them as given,
  with no scheme override, no targets and nothing notified.
\<close>

theorem C8_construction_always_succeeds:
  "g_network_service_new s p d =
     Inr \<lparr>service = s, protocol = p, domain = d, scheme = None, targets = [], notified = []\<rparr>"
  by (simp add: g_network_service_new_def g_network_service_init_def)

subsection \<open>One suspending step at a time\<close>

text \<open>
  C7. While the result of an earlier \<^verbatim>\<open>next_async\<close> is outstanding, a second
  \<^verbatim>\<open>next_async\<close> on the same enumerator is refused at entry: nothing is scheduled,
  neither the heap nor the enumerator changes, and no result is ever delivered for it.
\<close>

theorem C7_second_next_async_refused:
  assumes "result e \<noteq> None"
  shows "g_network_service_address_enumerator_next_async env canc (h, e) = (G_Critical, h, e)
         \<and> next_suspending env canc (h, e) = (None, h, e)"
  using assms
  by (simp add: g_network_service_address_enumerator_next_async_def next_suspending_def)

theorem C7_second_next_async_refused_witness:
  "fst first_async =
     Lookup_Service_Pending 0 (Some ''ldap'') (Some ''tcp'') (Some ''example.com'') None
   \<and> result (snd (snd first_async)) \<noteq> None
   \<and> g_network_service_address_enumerator_next_async demo_glib (Some 7) (snd first_async)
       = (G_Critical, snd first_async)
   \<and> next_suspending demo_glib (Some 7) (snd first_async) = (None, snd first_async)"
  using C7_second_next_async_refused
          [of "snd (snd first_async)" demo_glib "Some 7" "fst (snd first_async)"]
  by (simp add: first_async_def g_network_service_address_enumerator_next_async_def
                g_simple_async_result_new_def demo_defs)

subsection \<open>Targets whose URI does not parse\<close>

text \<open>
  C9. In the blocking enumerator, when no child is active and the next target's hostname
  normalizes but the URI built from scheme, hostname and port does not parse, the pass
  through the loop body takes the target off the cursor, records the parse error if the
  slot is empty (and leaves the slot alone otherwise), creates no child enumerator and
  pulls nothing; the loop goes on with the next target if there is one.
\<close>

theorem C9_unparsable_uri_skipped:
  assumes "addr_enum e = None" and "t_cur e = target # rest"
    and "g_hostname_to_ascii env (hostname target) = Some h"
    and "g_network_address_parse_uri env
           (g_uri_from_authority env (g_network_service_get_scheme sv) h (port target))
           (port target) = Inl err"
  shows "next_iteration env sv canc ret e = (ret, set_error_if_unset err (e\<lparr>t_cur := rest\<rparr>))
    \<and> next_do_while env sv canc ret e =
        (if rest \<noteq> []
         then next_do_while env sv canc ret (set_error_if_unset err (e\<lparr>t_cur := rest\<rparr>))
         else (ret, set_error_if_unset err (e\<lparr>t_cur := rest\<rparr>)))
    \<and> addr_enum (set_error_if_unset err (e\<lparr>t_cur := rest\<rparr>)) = None
    \<and> t_cur (set_error_if_unset err (e\<lparr>t_cur := rest\<rparr>)) = rest
    \<and> error (set_error_if_unset err (e\<lparr>t_cur := rest\<rparr>)) =
         (case error e of None \<Rightarrow> Some err | Some first \<Rightarrow> Some first)"
proof -
  let ?e' = "set_error_if_unset err (e\<lparr>t_cur := rest\<rparr>)"
  have it: "next_iteration env sv canc ret e = (ret, ?e')"
    using assms by (simp add: next_iteration_def)
  have flds: "addr_enum ?e' = None" "t_cur ?e' = rest"
    using assms by (simp_all add: set_error_if_unset_def)
  have loop: "next_do_while env sv canc ret e =
        (if rest \<noteq> [] then next_do_while env sv canc ret ?e' else (ret, ?e'))"
    by (subst next_do_while.simps) (simp add: it flds)
  have err: "error ?e' = (case error e of None \<Rightarrow> Some err | Some first \<Rightarrow> Some first)"
    by (simp add: set_error_if_unset_def split: option.splits)
  from it loop flds err show ?thesis by blast
qed

theorem C9_unparsable_uri_skipped_witness:
  "addr_enum two_targets_ahead = None
   \<and> t_cur two_targets_ahead =
       demo_target ''ldap1.example.com'' # [demo_target ''ldap2.example.com'']
   \<and> g_hostname_to_ascii demo_glib (hostname (demo_target ''ldap1.example.com''))
       = Some ''ldap1.example.com''
   \<and> g_network_address_parse_uri demo_glib
        (g_uri_from_authority demo_glib (g_network_service_get_scheme unnamed_service)
           ''ldap1.example.com'' (port (demo_target ''ldap1.example.com'')))
        (port (demo_target ''ldap1.example.com''))
       = Inl (GError G_IO_ERROR_INVALID_ARGUMENT ''Invalid URI'')
   \<and> next_iteration demo_glib unnamed_service None None two_targets_ahead =
       (None, two_targets_ahead
                \<lparr>t_cur := [demo_target ''ldap2.example.com''],
                 error := Some (GError G_IO_ERROR_INVALID_ARGUMENT ''Invalid URI'')\<rparr>)"
  using C9_unparsable_uri_skipped
          [of two_targets_ahead "demo_target ''ldap1.example.com''"
              "[demo_target ''ldap2.example.com'']" demo_glib "''ldap1.example.com''"
              unnamed_service "GError G_IO_ERROR_INVALID_ARGUMENT ''Invalid URI''" None None]
  by (simp add: two_targets_ahead_def unnamed_service_def set_error_if_unset_def
                g_network_service_get_scheme_def demo_defs)

subsection \<open>The target list is resolved once\<close>

lemma next_walk_heap: "fst (snd (next_walk env canc (h, e))) = h"
  by (simp add: next_walk_def split: prod.splits option.splits)

lemma next_resolved_heap:
  "targets (srv h) \<noteq> []
     \<Longrightarrow> fst (snd (g_network_service_address_enumerator_next env canc (h, e))) = h"
  by (simp add: g_network_service_address_enumerator_next_def next_walk_heap)

lemma have_targets_heap:
  "next_async_have_targets env (h, e) = (out, h', e') \<Longrightarrow> h' = h \<and> \<not> lookup_pending out"
  by (auto simp: next_async_have_targets_def Let_def
           split: option.splits list.splits prod.splits)

lemma have_address_heap:
  "next_async_have_address env pulled (h, e) = (out, h', e')
     \<Longrightarrow> h' = h \<and> \<not> lookup_pending out"
  by (auto simp: next_async_have_address_def dest: have_targets_heap
           split: option.splits sum.splits prod.splits)

text \<open>Once no lookup is outstanding, the main loop leaves the heap as it is.\<close>

lemma main_loop_heap:
  "\<not> lookup_pending out \<Longrightarrow> fst (snd (main_loop env (out, h, e))) = h"
proof (induction env "(out, h, e)" arbitrary: out h e rule: main_loop.induct)
  case (3 env child c h e)
  obtain out' h' e' where
    st: "next_async_have_address env (g_socket_address_enumerator_next env child c) (h, e)
           = (out', h', e')"
    by (metis prod_cases3)
  from have_address_heap [OF st] have "h' = h" "\<not> lookup_pending out'"
    by simp_all
  with 3(1) [OF st] st show ?case
    by simp
qed simp_all

lemma suspending_resolved_heap:
  assumes "targets (srv h) \<noteq> []"
  shows "fst (snd (next_suspending env canc (h, e))) = h"
proof -
  obtain out h' e' where
    st: "g_network_service_address_enumerator_next_async env canc (h, e) = (out, h', e')"
    by (metis prod_cases3)
  have "h' = h \<and> \<not> lookup_pending out"
    using st assms
    by (auto simp: g_network_service_address_enumerator_next_async_def Let_def
             dest: have_targets_heap split: if_splits option.splits)
  then show ?thesis
    by (simp add: next_suspending_def st main_loop_heap)
qed

lemma world_step_shared:
  assumes res: "targets (srv (shared w)) \<noteq> []"
  shows "shared (world_step env w st) = shared w"
proof (cases st)
  case (Blocking_Next i canc)
  obtain r h e where
    st: "g_network_service_address_enumerator_next env canc (shared w, enumerators w ! i)
           = (r, h, e)"
    by (metis prod_cases3)
  with next_resolved_heap [OF res, of env canc "enumerators w ! i"] have "h = shared w"
    by simp
  then show ?thesis
    by (simp add: Blocking_Next st)
next
  case (Suspending_Next i canc)
  obtain r h e where
    st: "next_suspending env canc (shared w, enumerators w ! i) = (r, h, e)"
    by (metis prod_cases3)
  with suspending_resolved_heap [OF res, of env canc "enumerators w ! i"] have "h = shared w"
    by simp
  then show ?thesis
    by (simp add: Suspending_Next st)
qed simp_all

text \<open>
  An enumerator built after the list was stored never has its cursor set: its steps find no
  child and nothing under the cursor, and end the sequence at once.
\<close>

lemma late_enumerator_walks_nothing:
  assumes "targets (srv h) \<noteq> []"
  shows "g_network_service_address_enumerator_next env canc
           (h, g_network_service_connectable_enumerate sv)
         = (Inr None, h, g_network_service_connectable_enumerate sv)"
    and "fst (next_suspending env canc (h, g_network_service_connectable_enumerate sv))
         = Some (Inr None)"
  using assms
  by (simp_all add: step_defs g_network_service_connectable_enumerate_def Let_def
               split: option.splits)

lemma resolved_world_eq:
  "resolved_world =
     \<lparr>shared =
        \<lparr>srv = (demo_service ''example.com'')
                 \<lparr>targets := [demo_target ''ldap1.example.com'',
                              demo_target ''ldap2.example.com'']\<rparr>,
         resolver = \<lparr>lookups = 1\<rparr>\<rparr>,
      enumerators =
        [\<lparr>addr_enum = Some [Inr (Some (''192.0.2.2'', 389))],
          t_cur = [demo_target ''ldap2.example.com''],
          use_proxy = False, error = None, cancellable = None, result = None\<rparr>]\<rparr>"
  by (simp add: resolved_world_def run_def new_world_def demo_defs step_defs)

text \<open>
  C3, as the claim has it, fails for an answer with zero targets: the resolver answers the
  first step with an empty list and no error, the step ends the sequence without an error,
  and the next step of the same enumerator, blocking or suspending, asks the resolver again.
\<close>

theorem C3_empty_answer_resolved_again:
  "g_resolver_lookup_service demo_glib 0 (Some ''ldap'') (Some ''tcp'')
       (Some ''empty.example'') None = Inr []
   \<and> fst (g_network_service_address_enumerator_next demo_glib None
            (demo_heap ''empty.example'', demo_enum)) = Inr None
   \<and> lookups (resolver (fst (demo_next (demo_heap ''empty.example'', demo_enum)))) = 1
   \<and> lookups (resolver (fst (demo_next (demo_next (demo_heap ''empty.example'', demo_enum)))))
       = 2
   \<and> lookups (resolver
        (fst (demo_next_suspending (demo_next (demo_heap ''empty.example'', demo_enum))))) = 2"
  by (simp add: demo_defs step_defs)

text \<open>
  C3, amended. Once the service holds a target list with at least one target, no step of any
  enumerator built from the service, blocking or suspending, before or after, each run to
  its end, asks the resolver again or changes the list: the service and the resolver stay
  exactly as they are through every run of steps.
\<close>

theorem C3_resolved_targets_memoized:
  assumes "targets (srv (shared w)) \<noteq> []"
  shows "shared (run env steps w) = shared w"
  using assms
proof (induction steps arbitrary: w)
  case Nil
  then show ?case
    by (simp add: run_def)
next
  case (Cons st steps)
  have eq: "shared (world_step env w st) = shared w"
    using Cons.prems by (rule world_step_shared)
  then have "targets (srv (shared (world_step env w st))) \<noteq> []"
    using Cons.prems by simp
  from Cons.IH [OF this] have "shared (run env steps (world_step env w st)) = shared w"
    by (simp only: eq)
  then show ?case
    by (simp add: run_def)
qed

theorem C3_resolved_targets_memoized_witness:
  "targets (srv (shared resolved_world)) \<noteq> []
   \<and> shared (run demo_glib later_steps resolved_world) = shared resolved_world
   \<and> lookups (resolver (shared (run demo_glib later_steps resolved_world))) = 1"
  using C3_resolved_targets_memoized [of resolved_world demo_glib later_steps]
  by (simp add: resolved_world_eq)

subsection \<open>What a step does to an enumerator\<close>

text \<open>
  The blocking step never touches the outstanding result, and a step that leaves the service
  without targets leaves the enumerator as it was.
\<close>

lemma next_iteration_result:
  "result (snd (next_iteration env sv canc ret e)) = result e"
  by (simp add: next_iteration_def next_pull_address_def set_error_if_unset_def Let_def
           split: option.splits list.splits sum.splits prod.splits)

lemma next_do_while_result:
  "result (snd (next_do_while env sv canc ret e)) = result e"
proof (induction env sv canc ret e rule: next_do_while.induct)
  case (1 env sv canc ret e)
  obtain ret1 e1 where it: "next_iteration env sv canc ret e = (ret1, e1)"
    by (cases "next_iteration env sv canc ret e")
  from next_iteration_result [of env sv canc ret e] it have r1: "result e1 = result e"
    by simp
  show ?case
  proof (cases "addr_enum e1 = None \<and> t_cur e1 \<noteq> []")
    case True
    with 1 [OF it [symmetric]] it r1 show ?thesis
      by (subst next_do_while.simps) simp
  next
    case False
    with it r1 show ?thesis
      by (subst next_do_while.simps) auto
  qed
qed

lemma next_walk_result: "result (snd (snd (next_walk env canc (h, e)))) = result e"
  using next_do_while_result [of env "srv h" canc None e]
  by (auto simp: next_walk_def split: prod.splits option.splits)

lemma blocking_result:
  "result (snd (snd (g_network_service_address_enumerator_next env canc (h, e)))) = result e"
  by (simp add: g_network_service_address_enumerator_next_def next_walk_result
           split: sum.splits)

lemma blocking_unresolved_same:
  assumes "targets (srv h) = []"
    and "g_network_service_address_enumerator_next env canc (h, e) = (r, h', e')"
    and "targets (srv h') = []"
  shows "e' = e"
proof (cases "g_resolver_lookup_service env (lookups (resolver h))
               (service (srv h)) (protocol (srv h)) (domain (srv h)) canc")
  case (Inl err)
  with assms show ?thesis
    by (simp add: g_network_service_address_enumerator_next_def)
next
  case (Inr ts)
  show ?thesis
  proof (cases "ts = []")
    case True
    with Inr assms show ?thesis
      by (simp add: g_network_service_address_enumerator_next_def)
  next
    case False
    with Inr assms(1,2) have "h' = store_targets ts (count_lookup h)"
      using next_walk_heap [of env canc "store_targets ts (count_lookup h)" "e\<lparr>t_cur := ts\<rparr>"]
      by (simp add: g_network_service_address_enumerator_next_def)
    with False assms(3) show ?thesis
      by (simp add: store_targets_def)
  qed
qed


lemma have_targets_coherent:
  assumes "result e \<noteq> None" and "next_async_have_targets env (h, e) = (out, h', e')"
  shows "(outstanding out \<longleftrightarrow> result e' \<noteq> None) \<and> out \<noteq> G_Critical"
  using assms
  by (auto simp: next_async_have_targets_def Let_def
           split: option.splits list.splits prod.splits)

lemma have_address_coherent:
  assumes "result e \<noteq> None" and "next_async_have_address env pulled (h, e) = (out, h', e')"
  shows "(outstanding out \<longleftrightarrow> result e' \<noteq> None) \<and> out \<noteq> G_Critical"
proof (cases pulled)
  case (Pair res child')
  show ?thesis
  proof (cases res)
    case (Inl err)
    with Pair assms(2)
    have "next_async_have_targets env (h, (set_error_if_unset err e)\<lparr>addr_enum := None\<rparr>)
            = (out, h', e')"
      by (simp add: next_async_have_address_def)
    moreover from assms(1) have "result ((set_error_if_unset err e)\<lparr>addr_enum := None\<rparr>) \<noteq> None"
      by (simp add: set_error_if_unset_def)
    ultimately show ?thesis
      by (rule have_targets_coherent [rotated])
  next
    case (Inr a)
    with Pair assms show ?thesis
      by (auto simp: next_async_have_address_def split: option.splits)
  qed
qed

lemma resolved_targets_coherent:
  assumes "result e \<noteq> None" and "next_async_resolved_targets env answer (h, e) = (out, h', e')"
  shows "(outstanding out \<longleftrightarrow> result e' \<noteq> None) \<and> out \<noteq> G_Critical"
proof (cases answer)
  case (Inl err)
  with assms show ?thesis
    by (auto simp: next_async_resolved_targets_def split: option.splits)
next
  case (Inr ts)
  with assms(2) have "next_async_have_targets env (store_targets ts h, e\<lparr>t_cur := ts\<rparr>) = (out, h', e')"
    by (simp add: next_async_resolved_targets_def)
  moreover from assms(1) have "result (e\<lparr>t_cur := ts\<rparr>) \<noteq> None"
    by simp
  ultimately show ?thesis
    by (rule have_targets_coherent [rotated])
qed

text \<open>The main loop ends with no result outstanding, and delivers one unless the call was refused.\<close>

lemma main_loop_result:
  assumes "outstanding out \<longleftrightarrow> result e \<noteq> None" and "out \<noteq> G_Critical"
  shows "result (snd (snd (main_loop env (out, h, e)))) = None
         \<and> fst (main_loop env (out, h, e)) \<noteq> None"
  using assms
proof (induction env "(out, h, e)" arbitrary: out h e rule: main_loop.induct)
  case (1 env h e)
  then show ?case by simp
next
  case (2 env n s p d c h e)
  obtain out' h' e' where
    st: "next_async_resolved_targets env (g_resolver_lookup_service env n s p d c) (h, e)
           = (out', h', e')"
    by (metis prod_cases3)
  from 2(2) have "result e \<noteq> None" by simp
  from resolved_targets_coherent [OF this st]
  have "outstanding out' \<longleftrightarrow> result e' \<noteq> None" and "out' \<noteq> G_Critical"
    by simp_all
  from 2(1) [OF st this] st show ?case
    by simp
next
  case (3 env child c h e)
  obtain out' h' e' where
    st: "next_async_have_address env (g_socket_address_enumerator_next env child c) (h, e)
           = (out', h', e')"
    by (metis prod_cases3)
  from 3(2) have "result e \<noteq> None" by simp
  from have_address_coherent [OF this st]
  have "outstanding out' \<longleftrightarrow> result e' \<noteq> None" and "out' \<noteq> G_Critical"
    by simp_all
  from 3(1) [OF st this] st show ?case
    by simp
next
  case (4 env simple h e)
  then show ?case by simp
qed

lemma suspending_result:
  assumes "result e = None"
  shows "result (snd (snd (next_suspending env canc (h, e)))) = None
         \<and> fst (next_suspending env canc (h, e)) \<noteq> None"
proof -
  obtain out h' e' where
    st: "g_network_service_address_enumerator_next_async env canc (h, e) = (out, h', e')"
    by (metis prod_cases3)
  have "(outstanding out \<longleftrightarrow> result e' \<noteq> None) \<and> out \<noteq> G_Critical"
  proof (cases "targets (srv h) = []")
    case True
    with st assms show ?thesis
      by (auto simp: g_network_service_address_enumerator_next_async_def Let_def
               split: option.splits)
  next
    case False
    let ?e1 = "e\<lparr>result := Some g_simple_async_result_new\<rparr>"
    let ?e2 = "case canc of Some c \<Rightarrow> ?e1\<lparr>cancellable := Some c\<rparr> | None \<Rightarrow> ?e1"
    from False st assms have "next_async_have_targets env (h, ?e2) = (out, h', e')"
      by (simp add: g_network_service_address_enumerator_next_async_def Let_def)
    moreover have "result ?e2 \<noteq> None"
      by (simp split: option.splits)
    ultimately show ?thesis
      by (rule have_targets_coherent [rotated])
  qed
  then show ?thesis
    using main_loop_result [of out e' env h'] by (simp add: next_suspending_def st)
qed

lemma suspending_unresolved_untouched:
  assumes "targets (srv h) = []" and "untouched e" and "result e = None"
    and "next_suspending env canc (h, e) = (r, h', e')"
    and "targets (srv h') = []"
  shows "untouched e'"
proof -
  let ?e1 = "e\<lparr>result := Some g_simple_async_result_new\<rparr>"
  let ?e2 = "case canc of Some c \<Rightarrow> ?e1\<lparr>cancellable := Some c\<rparr> | None \<Rightarrow> ?e1"
  let ?answer = "g_resolver_lookup_service env (lookups (resolver h))
                   (service (srv h)) (protocol (srv h)) (domain (srv h)) canc"
  have e2: "untouched ?e2" "result ?e2 = Some g_simple_async_result_new"
    using assms(2) by (simp_all add: untouched_def split: option.splits)
  have run: "next_suspending env canc (h, e) =
               main_loop env (next_async_resolved_targets env ?answer (count_lookup h, ?e2))"
    using assms(1,3)
    by (simp add: next_suspending_def g_network_service_address_enumerator_next_async_def Let_def)
  show ?thesis
  proof (cases ?answer)
    case (Inl err)
    with run assms(4) e2 show ?thesis
      by (auto simp: next_async_resolved_targets_def untouched_def)
  next
    case (Inr ts)
    show ?thesis
    proof (cases "ts = []")
      case True
      with Inr run assms(4) e2 show ?thesis
        by (auto simp: next_async_resolved_targets_def next_async_have_targets_def untouched_def)
    next
      case False
      obtain out h1 e1 where
        st: "next_async_have_targets env (store_targets ts (count_lookup h), ?e2\<lparr>t_cur := ts\<rparr>)
               = (out, h1, e1)"
        by (metis prod_cases3)
      from have_targets_heap [OF st]
      have h1: "h1 = store_targets ts (count_lookup h)" and nl: "\<not> lookup_pending out"
        by simp_all
      from Inr run st assms(4) have "main_loop env (out, h1, e1) = (r, h', e')"
        by (simp add: next_async_resolved_targets_def)
      with main_loop_heap [OF nl, of env h1 e1] have "h' = h1"
        by simp
      with h1 have "h' = store_targets ts (count_lookup h)"
        by simp
      with False assms(5) show ?thesis
        by (simp add: store_targets_def)
    qed
  qed
qed

subsection \<open>Runs of steps\<close>

text \<open>
  Along every run, no enumerator has a result outstanding between two steps, and while the
  service has no targets every enumerator is as it was built: no child, no recorded error,
  nothing under the cursor.
\<close>

lemma world_step_targets_back:
  assumes "targets (srv (shared (world_step env w st))) = []"
  shows "targets (srv (shared w)) = []"
proof (rule ccontr)
  assume "targets (srv (shared w)) \<noteq> []"
  from world_step_shared [OF this, of env st] this assms show False
    by simp
qed

lemma world_inv_update:
  assumes inv: "world_inv w" and i: "i < length (enumerators w)"
    and res: "result e' = None"
    and unt: "targets (srv h') = [] \<Longrightarrow> untouched e'"
    and before: "targets (srv h') = [] \<Longrightarrow> targets (srv (shared w)) = []"
  shows "world_inv (w\<lparr>shared := h', enumerators := (enumerators w)[i := e']\<rparr>)"
  unfolding world_inv_def
proof (intro ballI)
  fix x
  assume "x \<in> set (enumerators (w\<lparr>shared := h', enumerators := (enumerators w)[i := e']\<rparr>))"
  then have "x \<in> set ((enumerators w)[i := e'])"
    by simp
  then have "x = e' \<or> x \<in> set (enumerators w)"
    using set_update_subset_insert [of "enumerators w" i e'] by auto
  then show "result x = None \<and>
      (targets (srv (shared (w\<lparr>shared := h', enumerators := (enumerators w)[i := e']\<rparr>))) = []
         \<longrightarrow> untouched x)"
  proof
    assume "x = e'"
    with res unt show ?thesis by simp
  next
    assume "x \<in> set (enumerators w)"
    with inv before show ?thesis
      by (simp add: world_inv_def)
  qed
qed

lemma world_step_inv:
  assumes inv: "world_inv w"
  shows "world_inv (world_step env w st)"
proof (cases st)
  case Enumerate
  with inv show ?thesis
    by (auto simp: world_inv_def untouched_def g_network_service_connectable_enumerate_def)
next
  case Proxy_Enumerate
  with inv show ?thesis
    by (auto simp: world_inv_def untouched_def g_network_service_connectable_enumerate_def
                   g_network_service_connectable_proxy_enumerate_def)
next
  case (Blocking_Next i canc)
  show ?thesis
  proof (cases "i < length (enumerators w)")
    case False
    with inv Blocking_Next show ?thesis by simp
  next
    case True
    let ?e = "enumerators w ! i"
    obtain r h' e' where
      st: "g_network_service_address_enumerator_next env canc (shared w, ?e) = (r, h', e')"
      by (metis prod_cases3)
    from True have mem: "?e \<in> set (enumerators w)"
      by simp
    with inv have e: "result ?e = None" "targets (srv (shared w)) = [] \<Longrightarrow> untouched ?e"
      by (simp_all add: world_inv_def)
    have step: "world_step env w st = w\<lparr>shared := h', enumerators := (enumerators w)[i := e']\<rparr>"
      using True by (simp add: Blocking_Next st)
    have before: "targets (srv h') = [] \<Longrightarrow> targets (srv (shared w)) = []"
      using world_step_targets_back [of env w st] by (simp add: step)
    have res: "result e' = None"
      using blocking_result [of env canc "shared w" ?e] e(1) by (simp add: st)
    have unt: "targets (srv h') = [] \<Longrightarrow> untouched e'"
    proof -
      assume t: "targets (srv h') = []"
      from blocking_unresolved_same [OF before [OF t] st t] e(2) [OF before [OF t]]
      show "untouched e'" by simp
    qed
    from world_inv_update [OF inv True res unt before] show ?thesis
      by (simp add: step)
  qed
next
  case (Suspending_Next i canc)
  show ?thesis
  proof (cases "i < length (enumerators w)")
    case False
    with inv Suspending_Next show ?thesis by simp
  next
    case True
    let ?e = "enumerators w ! i"
    obtain r h' e' where
      st: "next_suspending env canc (shared w, ?e) = (r, h', e')"
      by (metis prod_cases3)
    from True have mem: "?e \<in> set (enumerators w)"
      by simp
    with inv have e: "result ?e = None" "targets (srv (shared w)) = [] \<Longrightarrow> untouched ?e"
      by (simp_all add: world_inv_def)
    have step: "world_step env w st = w\<lparr>shared := h', enumerators := (enumerators w)[i := e']\<rparr>"
      using True by (simp add: Suspending_Next st)
    have before: "targets (srv h') = [] \<Longrightarrow> targets (srv (shared w)) = []"
      using world_step_targets_back [of env w st] by (simp add: step)
    have res: "result e' = None"
      using suspending_result [OF e(1), of env canc "shared w"] by (simp add: st)
    have unt: "targets (srv h') = [] \<Longrightarrow> untouched e'"
    proof -
      assume t: "targets (srv h') = []"
      from suspending_unresolved_untouched [OF before [OF t] e(2) [OF before [OF t]] e(1) st t]
      show "untouched e'" .
    qed
    from world_inv_update [OF inv True res unt before] show ?thesis
      by (simp add: step)
  qed
qed

lemma run_inv: "world_inv w \<Longrightarrow> world_inv (run env steps w)"
proof (induction steps arbitrary: w)
  case Nil
  then show ?case by (simp add: run_def)
next
  case (Cons st steps)
  from Cons.IH [OF world_step_inv [OF Cons.prems, of env st]] show ?case
    by (simp add: run_def)
qed

lemma new_world_inv: "world_inv (new_world sv r)"
  by (simp add: world_inv_def new_world_def)

lemma zero_targets_blocking:
  assumes "targets (srv h) = []"
    and "g_resolver_lookup_service env (lookups (resolver h))
           (service (srv h)) (protocol (srv h)) (domain (srv h)) canc = Inr []"
  shows "g_network_service_address_enumerator_next env canc (h, e) = (Inr None, count_lookup h, e)"
  using assms by (simp add: g_network_service_address_enumerator_next_def)

lemma zero_targets_suspending:
  assumes "targets (srv h) = []"
    and "g_resolver_lookup_service env (lookups (resolver h))
           (service (srv h)) (protocol (srv h)) (domain (srv h)) canc = Inr []"
    and "untouched e" and "result e = None"
  shows "fst (next_suspending env canc (h, e)) = Some (Inr None)"
  using assms
  by (simp add: next_suspending_def g_network_service_address_enumerator_next_async_def
                next_async_resolved_targets_def next_async_have_targets_def untouched_def
                g_network_service_address_enumerator_next_finish_def g_simple_async_result_new_def
                Let_def
           split: option.splits)

text \<open>
  An answer with zero targets is not kept: after the step the service still has no targets,
  the resolver has been asked once more, and the next step asks again.
\<close>

lemma zero_targets_not_memoized:
  assumes "targets (srv h) = []"
    and "g_resolver_lookup_service env (lookups (resolver h))
           (service (srv h)) (protocol (srv h)) (domain (srv h)) canc = Inr []"
  shows "fst (snd (g_network_service_address_enumerator_next env canc (h, e))) = count_lookup h"
    and "untouched e \<Longrightarrow> result e = None
           \<Longrightarrow> fst (snd (next_suspending env canc (h, e))) = count_lookup h"
    and "targets (srv (count_lookup h)) = []"
    and "lookups (resolver (count_lookup h)) = Suc (lookups (resolver h))"
  using assms
  by (simp_all add: zero_targets_blocking next_suspending_def
                    g_network_service_address_enumerator_next_async_def
                    next_async_resolved_targets_def next_async_have_targets_def untouched_def
                    g_simple_async_result_new_def store_targets_def count_lookup_def Let_def
               split: option.splits)

lemma empty_world_eq:
  "empty_world =
     \<lparr>shared = \<lparr>srv = demo_service ''empty.example'', resolver = \<lparr>lookups = 2\<rparr>\<rparr>,
      enumerators =
        [g_network_service_connectable_enumerate (demo_service ''empty.example''),
         g_network_service_connectable_proxy_enumerate (demo_service ''empty.example'')]\<rparr>"
  by (simp add: empty_world_def run_def new_world_def demo_defs step_defs)


subsection \<open>An answer with zero targets\<close>

text \<open>
  C5. Take any state reached from a service nobody has enumerated by building enumerators
  and driving them through blocking and suspending steps, and any of its enumerators. If the
  service has no targets there, so that the step asks the resolver, and the resolver's answer
  is the empty list with no error, then the blocking step returns no address and no error,
  and the suspending step delivers no address and no error.
\<close>

theorem C5_zero_targets_end_of_sequence:
  assumes "w = run env steps (new_world sv r)"
    and "i < length (enumerators w)"
    and "targets (srv (shared w)) = []"
    and "g_resolver_lookup_service env (lookups (resolver (shared w)))
           (service (srv (shared w))) (protocol (srv (shared w))) (domain (srv (shared w))) canc
         = Inr []"
  shows "fst (g_network_service_address_enumerator_next env canc (shared w, enumerators w ! i))
           = Inr None
       \<and> fst (next_suspending env canc (shared w, enumerators w ! i)) = Some (Inr None)"
proof -
  have "world_inv w"
    unfolding assms(1) by (rule run_inv [OF new_world_inv])
  moreover from assms(2) have "enumerators w ! i \<in> set (enumerators w)"
    by simp
  ultimately have "untouched (enumerators w ! i)" "result (enumerators w ! i) = None"
    using assms(3) by (simp_all add: world_inv_def)
  with zero_targets_blocking [OF assms(3,4)] zero_targets_suspending [OF assms(3,4)]
  show ?thesis
    by simp
qed

theorem C5_zero_targets_end_of_sequence_witness:
  "Suc 0 < length (enumerators empty_world)
   \<and> targets (srv (shared empty_world)) = []
   \<and> g_resolver_lookup_service demo_glib (lookups (resolver (shared empty_world)))
        (service (srv (shared empty_world))) (protocol (srv (shared empty_world)))
        (domain (srv (shared empty_world))) None = Inr []
   \<and> fst (g_network_service_address_enumerator_next demo_glib None
            (shared empty_world, enumerators empty_world ! Suc 0)) = Inr None
   \<and> fst (next_suspending demo_glib None
            (shared empty_world, enumerators empty_world ! Suc 0)) = Some (Inr None)"
  using C5_zero_targets_end_of_sequence [OF empty_world_def, of "Suc 0" None]
  by (simp add: empty_world_eq demo_defs)

subsection \<open>A pull that fails\<close>

text \<open>
  When the pull from the active child returns an error, a Cancelled one included, the error
  goes into the slot if the slot is empty (and is dropped otherwise), the child is
  discarded, and the cursor stays on the targets not yet expanded. The blocking step then
  goes on as the step of an enumerator with no child and these targets ahead; only with no
  target left does it end, handing the slot's error to the caller. The suspending callback
  likewise goes on to \<^verbatim>\<open>next_async_have_targets\<close> from that state.
\<close>

lemma failed_pull_folded:
  assumes "addr_enum e = Some child"
    and "g_socket_address_enumerator_next env child canc = (Inl err, child')"
  shows "next_walk env canc (h, e) =
           (if t_cur e \<noteq> []
            then next_walk env canc (h, (set_error_if_unset err e)\<lparr>addr_enum := None\<rparr>)
            else (Inl (case error e of None \<Rightarrow> err | Some first \<Rightarrow> first), h,
                  (set_error_if_unset err e)\<lparr>addr_enum := None, error := None\<rparr>))
       \<and> next_async_have_address env (Inl err, child') (h, e) =
           next_async_have_targets env (h, (set_error_if_unset err e)\<lparr>addr_enum := None\<rparr>)
       \<and> addr_enum ((set_error_if_unset err e)\<lparr>addr_enum := None\<rparr>) = None
       \<and> t_cur ((set_error_if_unset err e)\<lparr>addr_enum := None\<rparr>) = t_cur e
       \<and> error ((set_error_if_unset err e)\<lparr>addr_enum := None\<rparr>) =
           (case error e of None \<Rightarrow> Some err | Some first \<Rightarrow> Some first)"
proof -
  let ?e' = "(set_error_if_unset err e)\<lparr>addr_enum := None\<rparr>"
  have flds: "addr_enum ?e' = None" "t_cur ?e' = t_cur e"
    "error ?e' = (case error e of None \<Rightarrow> Some err | Some first \<Rightarrow> Some first)"
    by (simp_all add: set_error_if_unset_def split: option.splits)
  have it: "next_iteration env sv canc ret e = (None, ?e')" for sv ret
    using assms by (simp add: next_iteration_def next_pull_address_def)
  have loop: "next_do_while env sv canc ret e =
                (if t_cur e \<noteq> [] then next_do_while env sv canc None ?e' else (None, ?e'))" for sv ret
    by (subst next_do_while.simps) (simp add: it flds)
  have walk: "next_walk env canc (h, e) =
           (if t_cur e \<noteq> [] then next_walk env canc (h, ?e')
            else (Inl (case error e of None \<Rightarrow> err | Some first \<Rightarrow> first), h,
                  ?e'\<lparr>error := None\<rparr>))"
    by (simp add: next_walk_def loop flds split: option.splits)
  have async: "next_async_have_address env (Inl err, child') (h, e) =
           next_async_have_targets env (h, ?e')"
    by (simp add: next_async_have_address_def)
  from walk async flds show ?thesis
    by simp
qed


text \<open>
  A step is handed one cancellable and passes it to every pull it makes. With a cancellable
  that has been cancelled, each pull of the step fails: from the state with the child of
  ldap1 in place and ldap2 ahead, the blocking step drops the child, expands ldap2, has its
  pull cancelled as well, and ends with nothing under the cursor and the first Cancelled
  error handed over; the step after it, not cancelled, has nothing left to return.
\<close>

lemma cancelled_step_runs_through_all_targets:
  "fst (g_network_service_address_enumerator_next demo_glib (Some 1)
          (shared resolved_world, enumerators resolved_world ! 0))
     = Inl (GError G_IO_ERROR_CANCELLED ''Operation was cancelled'')
   \<and> t_cur (snd (snd (g_network_service_address_enumerator_next demo_glib (Some 1)
          (shared resolved_world, enumerators resolved_world ! 0)))) = []
   \<and> addr_enum (snd (snd (g_network_service_address_enumerator_next demo_glib (Some 1)
          (shared resolved_world, enumerators resolved_world ! 0)))) = None
   \<and> fst (g_network_service_address_enumerator_next demo_glib None
          (snd (g_network_service_address_enumerator_next demo_glib (Some 1)
             (shared resolved_world, enumerators resolved_world ! 0)))) = Inr None"
  by (simp add: resolved_world_eq demo_defs step_defs)

text \<open>
  C6 on the service of cancel.example, with the targets slow (the pull from its child
  reports Cancelled), ldap2 (one address) and ldap1, enumerated from the start. The first
  step records the Cancelled error, drops the child of slow, expands ldap2 and returns its
  address, with ldap1 left under the cursor. The second step finds the child of ldap2 used
  up: the blocking step hands the Cancelled error to the caller, the suspending step returns
  no address and no error. The third step returns no address and no error in both modes,
  and so does every step after it: the child of ldap2 stays in place, ldap1 stays under the
  cursor and is never expanded.
\<close>

theorem C6_target_after_cancelled_pull_never_attempted:
  "fst (g_network_service_address_enumerator_next demo_glib None
          (demo_heap ''cancel.example'', demo_enum)) = Inr (Some (''192.0.2.9'', 389))
   \<and> error (snd (demo_next (demo_heap ''cancel.example'', demo_enum)))
       = Some (GError G_IO_ERROR_CANCELLED ''Operation was cancelled'')
   \<and> t_cur (snd (demo_next (demo_heap ''cancel.example'', demo_enum)))
       = [demo_target ''ldap1.example.com'']
   \<and> fst (g_network_service_address_enumerator_next demo_glib None
          (demo_next (demo_heap ''cancel.example'', demo_enum)))
       = Inl (GError G_IO_ERROR_CANCELLED ''Operation was cancelled'')
   \<and> fst (g_network_service_address_enumerator_next demo_glib None
          (demo_next (demo_next (demo_heap ''cancel.example'', demo_enum)))) = Inr None
   \<and> addr_enum (snd (demo_next (demo_next (demo_next
          (demo_heap ''cancel.example'', demo_enum))))) = Some []
   \<and> t_cur (snd (demo_next (demo_next (demo_next
          (demo_heap ''cancel.example'', demo_enum))))) = [demo_target ''ldap1.example.com'']
   \<and> fst (g_network_service_address_enumerator_next demo_glib None
          (demo_next (demo_next (demo_next (demo_heap ''cancel.example'', demo_enum)))))
       = Inr None
   \<and> fst (next_suspending demo_glib None (demo_heap ''cancel.example'', demo_enum))
       = Some (Inr (Some (''192.0.2.9'', 389)))
   \<and> fst (next_suspending demo_glib None
          (demo_next_suspending (demo_heap ''cancel.example'', demo_enum))) = Some (Inr None)
   \<and> fst (next_suspending demo_glib None
          (demo_next_suspending (demo_next_suspending
             (demo_heap ''cancel.example'', demo_enum)))) = Some (Inr None)
   \<and> addr_enum (snd (demo_next_suspending (demo_next_suspending (demo_next_suspending
          (demo_heap ''cancel.example'', demo_enum))))) = Some []
   \<and> t_cur (snd (demo_next_suspending (demo_next_suspending (demo_next_suspending
          (demo_heap ''cancel.example'', demo_enum))))) = [demo_target ''ldap1.example.com'']"
  by (simp add: demo_defs step_defs)

subsection \<open>A child that is used up\<close>

text \<open>
  C2 on the service of example.com, whose two targets are ldap1 (two addresses) and ldap2
  (one address). The third step finds the child of ldap1 used up: it returns no address and
  no error, the child stays in place and ldap2 stays under the cursor, and the fourth step
  returns the same. The suspending steps do the same. No step ever expands ldap2.
\<close>

theorem C2_exhausted_child_stays:
  "fst (g_network_service_address_enumerator_next demo_glib None
          (demo_next (demo_next (demo_heap ''example.com'', demo_enum)))) = Inr None
   \<and> addr_enum (snd (demo_next (demo_next (demo_next (demo_heap ''example.com'', demo_enum)))))
       = Some []
   \<and> t_cur (snd (demo_next (demo_next (demo_next (demo_heap ''example.com'', demo_enum)))))
       = [demo_target ''ldap2.example.com'']
   \<and> fst (g_network_service_address_enumerator_next demo_glib None
          (demo_next (demo_next (demo_next (demo_heap ''example.com'', demo_enum))))) = Inr None
   \<and> fst (next_suspending demo_glib None
          (demo_next_suspending (demo_next_suspending (demo_heap ''example.com'', demo_enum))))
       = Some (Inr None)
   \<and> addr_enum (snd (demo_next_suspending (demo_next_suspending (demo_next_suspending
          (demo_heap ''example.com'', demo_enum))))) = Some []
   \<and> t_cur (snd (demo_next_suspending (demo_next_suspending (demo_next_suspending
          (demo_heap ''example.com'', demo_enum))))) = [demo_target ''ldap2.example.com'']
   \<and> fst (next_suspending demo_glib None
          (demo_next_suspending (demo_next_suspending (demo_next_suspending
             (demo_heap ''example.com'', demo_enum))))) = Some (Inr None)"
  by (simp add: demo_defs step_defs)


text \<open>
  C4 on the service of flaky.example, with the targets down (its child fails), ldap2 (one
  address) and ldap1. The first blocking step records the failure of down and returns the
  address of ldap2. The second finds the child of ldap2 used up and hands the recorded error
  to the caller, although ldap1 is still under the cursor and the child is still in place.
  The suspending steps return no address and no error there, and never hand the error over.
\<close>

theorem C4_error_surfaced_before_walk_ends:
  "fst (g_network_service_address_enumerator_next demo_glib None
          (demo_heap ''flaky.example'', demo_enum)) = Inr (Some (''192.0.2.9'', 389))
   \<and> error (snd (demo_next (demo_heap ''flaky.example'', demo_enum)))
       = Some (GError G_RESOLVER_ERROR_NOT_FOUND ''No such host'')
   \<and> fst (g_network_service_address_enumerator_next demo_glib None
          (demo_next (demo_heap ''flaky.example'', demo_enum)))
       = Inl (GError G_RESOLVER_ERROR_NOT_FOUND ''No such host'')
   \<and> t_cur (snd (demo_next (demo_next (demo_heap ''flaky.example'', demo_enum))))
       = [demo_target ''ldap1.example.com'']
   \<and> addr_enum (snd (demo_next (demo_next (demo_heap ''flaky.example'', demo_enum)))) = Some []
   \<and> fst (next_suspending demo_glib None
          (demo_next_suspending (demo_heap ''flaky.example'', demo_enum))) = Some (Inr None)
   \<and> fst (next_suspending demo_glib None
          (demo_next_suspending (demo_next_suspending (demo_heap ''flaky.example'', demo_enum))))
       = Some (Inr None)"
  by (simp add: demo_defs step_defs)


subsection \<open>Blocking against suspending\<close>

text \<open>
  C1 on two inputs. The only target of bad.example has a hostname that does not normalize:
  the blocking step reports the invalid hostname and builds no child, the suspending step
  builds the child from the raw hostname and reports the child's error. On example.com with
  the scheme set to ``ldaps'', enumerated through proxies, the blocking step builds the
  connectable from the URI with that scheme, the suspending step builds it from hostname
  and port alone, and the candidates differ.
\<close>

theorem C1_modes_differ:
  "fst (g_network_service_address_enumerator_next demo_glib None
          (demo_heap ''bad.example'', demo_enum))
     = Inl (invalid_hostname_error ''bad host'')
   \<and> fst (next_suspending demo_glib None (demo_heap ''bad.example'', demo_enum))
     = Some (Inl (GError G_RESOLVER_ERROR_NOT_FOUND ''No such host''))
   \<and> fst (g_network_service_address_enumerator_next demo_glib None (ldaps_heap, demo_proxy_enum))
     = Inr (Some (''ldaps-proxy.example.com'', 3128))
   \<and> fst (next_suspending demo_glib None (ldaps_heap, demo_proxy_enum))
     = Some (Inr (Some (''none-proxy.example.com'', 3128)))"
  by (simp add: demo_defs step_defs ldaps_heap_def g_network_service_set_scheme_def)

end
